theory Spec2Isabelle
  imports Main "HOL-Library.Char_ord"
begin

section \<open>Strings as the client code uses them\<close>

text \<open>
  The client is TypeScript. A JavaScript string is modelled as a \<^typ>\<open>string\<close>; every
  literal the components compare against is plain ASCII, and \<open>toLowerCase\<close> is modelled
  on the ASCII letters (\<open>A\<close>..\<open>Z\<close> move by 32, every other character stays).
\<close>

definition toLowerCase_char :: "char \<Rightarrow> char" where
  "toLowerCase_char c =
     (if CHR ''A'' \<le> c \<and> c \<le> CHR ''Z'' then char_of (of_char c + (32::nat)) else c)"

definition toLowerCase :: "string \<Rightarrow> string" where
  "toLowerCase s = map toLowerCase_char s"

fun startsWith :: "string \<Rightarrow> string \<Rightarrow> bool" where
  "startsWith s [] = True"
| "startsWith [] (y # ys) = False"
| "startsWith (x # xs) (y # ys) = (x = y \<and> startsWith xs ys)"

text \<open>\<open>s.includes(t)\<close>: \<open>t\<close> occurs in \<open>s\<close> as a contiguous run of characters.\<close>

fun str_includes :: "string \<Rightarrow> string \<Rightarrow> bool" where
  "str_includes [] t = (t = [])"
| "str_includes (x # xs) t = (startsWith (x # xs) t \<or> str_includes xs t)"

section \<open>Array slicing as the client code uses it\<close>

text \<open>
  \<open>xs.slice(start, end)\<close>: a negative index counts from the end of the array, every index
  is clamped to the array, and an absent \<open>end\<close> is the length.
\<close>

definition slice_index :: "nat \<Rightarrow> int \<Rightarrow> nat" where
  "slice_index len k = (if k < 0 then nat (max (int len + k) 0) else min (nat k) len)"

definition js_slice :: "'a list \<Rightarrow> int \<Rightarrow> int option \<Rightarrow> 'a list" where
  "js_slice xs start end_opt =
     (let len = length xs;
          k = slice_index len start;
          fin = (case end_opt of None \<Rightarrow> len | Some e \<Rightarrow> slice_index len e)
      in take (fin - k) (drop k xs))"

section \<open>Shared types of the client\<close>

text \<open>
  \<open>GeneratedFile\<close> and the values of \<open>Agent.status\<close>, as the type declarations of the
  client have them.
\<close>

datatype file_type = frontend | backend | test | documentation | design

record GeneratedFile =
  path :: string
  content :: string
  type :: file_type

datatype agent_state = idle | working | completed | failed

section \<open>DetailedProgressTracker: derived progress and the development timeline\<close>

text \<open>
  \<open>getPhaseProgress\<close> closes over \<open>processingStatus.currentPhase\<close>; the model takes that
  string as its argument. The chain of \<open>if\<close>s is kept in the source's order.
\<close>

definition getPhaseProgress :: "string \<Rightarrow> nat" where
  "getPhaseProgress currentPhase =
     (let phase = toLowerCase currentPhase in
      if str_includes phase ''pending'' then 0
      else if str_includes phase ''phase 1'' \<or> str_includes phase ''creating system design'' then 20
      else if str_includes phase ''phase 2'' \<or> str_includes phase ''developing frontend'' then 40
      else if str_includes phase ''phase 3'' \<or> str_includes phase ''developing backend'' then 60
      else if str_includes phase ''phase 4'' \<or> str_includes phase ''creating test'' then 80
      else if str_includes phase ''phase 5'' \<or> str_includes phase ''creating documentation'' then 90
      else if str_includes phase ''completed'' then 100
      else 0)"

text \<open>
  The array literal of the "Development Timeline" pane: each item carries its label and the
  flag \<open>progress\<close> that decides whether the item is drawn as complete.
\<close>

definition timeline :: "nat \<Rightarrow> (string \<times> bool) list" where
  "timeline phaseProgress =
     [(''Phase 1: System Design'', phaseProgress \<ge> 20),
      (''Phase 2: Frontend Development'', phaseProgress \<ge> 40),
      (''Phase 3: Backend Development'', phaseProgress \<ge> 60),
      (''Phase 4: Test Creation'', phaseProgress \<ge> 80),
      (''Phase 5: Documentation'', phaseProgress \<ge> 90)]"

text \<open>The labels of the timeline's items: the names the client gives the stage phases.\<close>

definition stage_labels :: "string list" where
  "stage_labels = map fst (timeline 0)"

text \<open>The keys of \<open>AGENT_ICONS\<close>, in the order of the object literal.\<close>

definition AGENT_ICONS_keys :: "string list" where
  "AGENT_ICONS_keys =
     [''Lead Architect'', ''Frontend Developer'', ''Backend Developer'',
      ''Test Engineer'', ''Documentation Writer'']"

text \<open>
  The "Real-time Activity" pane: the last ten log entries, newest first, or a placeholder
  when there is none.
\<close>

definition recentLogs :: "'l list \<Rightarrow> 'l list" where
  "recentLogs logs = rev (js_slice logs (- 10) None)"

datatype 'l activity_pane = NoActivityLogsYet | LogCards "'l list"

definition activity :: "'l list \<Rightarrow> 'l activity_pane" where
  "activity logs =
     (if length (recentLogs logs) > 0 then LogCards (recentLogs logs) else NoActivityLogsYet)"

section \<open>FileUpload\<close>

text \<open>
  \<open>tracked\<close> is the state the component holds: the list last handed to \<open>setFiles\<close>, empty
  at first. \<open>rendered\<close> is the \<open>files\<close> of the latest render, which is what \<open>onDrop\<close> and
  \<open>removeFile\<close> read (neither uses a functional update); a render brings it up to the
  tracked list. \<open>reported\<close> collects the arguments of the calls of \<open>onFilesChange\<close>, oldest
  first. \<open>maxFiles\<close> is a property of the component with default 5.
\<close>

record 'f upload_state =
  rendered :: "'f list"
  tracked :: "'f list"
  reported :: "'f list list"

definition upload_init :: "'f upload_state" where
  "upload_init = \<lparr>rendered = [], tracked = [], reported = []\<rparr>"

definition maxFiles_prop :: "int option \<Rightarrow> int" where
  "maxFiles_prop given = (case given of None \<Rightarrow> 5 | Some m \<Rightarrow> m)"

definition onDrop :: "int \<Rightarrow> 'f upload_state \<Rightarrow> 'f list \<Rightarrow> 'f upload_state" where
  "onDrop maxFiles st acceptedFiles =
     (let newFiles = js_slice (rendered st @ acceptedFiles) 0 (Some maxFiles)
      in st\<lparr>tracked := newFiles, reported := reported st @ [newFiles]\<rparr>)"

definition removeFile :: "'f upload_state \<Rightarrow> nat \<Rightarrow> 'f upload_state" where
  "removeFile st index =
     (let newFiles = map snd (filter (\<lambda>(i, _). i \<noteq> index) (enumerate 0 (rendered st)))
      in st\<lparr>tracked := newFiles, reported := reported st @ [newFiles]\<rparr>)"

definition render :: "'f upload_state \<Rightarrow> 'f upload_state" where
  "render st = st\<lparr>rendered := tracked st\<rparr>"

text \<open>
  What happens to the component: files are dropped, a file's remove button is clicked, or
  the component renders again.
\<close>

datatype 'f upload_event = Drop "'f list" | Remove nat | Render

fun upload_step :: "int \<Rightarrow> 'f upload_state \<Rightarrow> 'f upload_event \<Rightarrow> 'f upload_state" where
  "upload_step maxFiles st (Drop acceptedFiles) = onDrop maxFiles st acceptedFiles"
| "upload_step maxFiles st (Remove index) = removeFile st index"
| "upload_step maxFiles st Render = render st"

fun handler_event :: "'f upload_event \<Rightarrow> bool" where
  "handler_event (Drop acceptedFiles) = True"
| "handler_event (Remove index) = True"
| "handler_event Render = False"

definition upload_run :: "int \<Rightarrow> 'f upload_event list \<Rightarrow> 'f upload_state" where
  "upload_run maxFiles evs = foldl (upload_step maxFiles) upload_init evs"

section \<open>OutputViewer\<close>

text \<open>
  The initial value of the state \<open>selectedFile\<close>, and what the component returns: the
  placeholder, or the file list (each button with its highlight flag) beside the pane of the
  selected file.
\<close>

definition initial_selectedFile :: "'f list \<Rightarrow> 'f option" where
  "initial_selectedFile files = (if length files > 0 then Some (files ! 0) else None)"

datatype 'f output_view =
  NoFilesGeneratedYet
| GeneratedFiles "('f \<times> bool) list" "'f option"

definition OutputViewer ::
  "'a GeneratedFile_scheme list \<Rightarrow> 'a GeneratedFile_scheme option
   \<Rightarrow> 'a GeneratedFile_scheme output_view" where
  "OutputViewer files selectedFile =
     (if length files = 0 then NoFilesGeneratedYet
      else GeneratedFiles
        (map (\<lambda>file. (file, map_option path selectedFile = Some (path file))) files)
        selectedFile)"

definition OutputViewer_first_render ::
  "'a GeneratedFile_scheme list \<Rightarrow> 'a GeneratedFile_scheme output_view" where
  "OutputViewer_first_render files = OutputViewer files (initial_selectedFile files)"

section \<open>api.ts: submitting a project\<close>

text \<open>
  \<open>FormData\<close> is the list of its entries in the order of the \<open>append\<close> calls; a value is
  a text or a file. The request is the configuration handed to the HTTP client: \<open>baseURL\<close> and
  \<open>timeout\<close> come from \<open>axios.create\<close>, the rest from the call of \<open>api.post\<close>.
\<close>

datatype 'f form_value = Text string | FileEntry 'f

type_synonym 'f FormData = "(string \<times> 'f form_value) list"

definition append_entry :: "'f FormData \<Rightarrow> string \<Rightarrow> 'f form_value \<Rightarrow> 'f FormData" where
  "append_entry formData key v = formData @ [(key, v)]"

record 'f submit_data =
  description :: string
  language :: string
  files :: "'f list option"

datatype http_method = GET | POST

record 'f request =
  request_method :: http_method
  baseURL :: string
  url :: string
  headers :: "(string \<times> string) list"
  timeout :: nat
  data :: "'f FormData"

definition API_BASE_URL :: "string option \<Rightarrow> string" where
  "API_BASE_URL VITE_API_URL =
     (case VITE_API_URL of
        None \<Rightarrow> ''http://localhost:8000''
      | Some u \<Rightarrow> if u = [] then ''http://localhost:8000'' else u)"

definition api_post ::
  "string option \<Rightarrow> string \<Rightarrow> 'f FormData \<Rightarrow> (string \<times> string) list \<Rightarrow> 'f request" where
  "api_post env u formData hs =
     \<lparr>request_method = POST, baseURL = API_BASE_URL env @ ''/api'', url = u, headers = hs,
      timeout = 30000, data = formData\<rparr>"

definition submitProject_formData :: "'f submit_data \<Rightarrow> 'f FormData" where
  "submitProject_formData d =
     (let formData = [];
          formData = append_entry formData ''description'' (Text (description d));
          formData = append_entry formData ''language'' (Text (language d))
      in case files d of
           None \<Rightarrow> formData
         | Some fs \<Rightarrow>
             foldl (\<lambda>formData file. append_entry formData ''files'' (FileEntry file)) formData fs)"

text \<open>
  The server is any function from the request to a rejection (the promise of \<open>api.post\<close>
  rejects) or a response body. \<open>submitProject\<close> returns the requests it has sent and its
  own outcome.
\<close>

definition submitProject ::
  "string option \<Rightarrow> ('f request \<Rightarrow> 'e + 'b) \<Rightarrow> 'f submit_data
   \<Rightarrow> 'f request list \<times> ('e + 'b)" where
  "submitProject env server d =
     (let req = api_post env ''/projects/submit'' (submitProject_formData d)
                  [(''Content-Type'', ''multipart/form-data'')]
      in ([req], case server req of Inl err \<Rightarrow> Inl err | Inr response_data \<Rightarrow> Inr response_data))"

section \<open>EngineeringTeamPage: polling and the download action\<close>

text \<open>
  The page keeps \<open>result\<close> (the created project), \<open>status\<close> (the last status response it
  accepted) and \<open>isPolling\<close>; \<open>pending_polls\<close> counts the status requests that have been
  sent and not yet answered (the promises \<open>pollStatus\<close> is awaiting). Of a status response the page reads \<open>error\<close> and
  \<open>currentPhase\<close>; the other fields ride along in the record's extension. A
  \<open>ProjectRequest\<close> carries the submitted description, language and attachments (the
  inherited \<open>files\<close>), its \<open>id\<close> and its \<open>status\<close> (\<open>request_id\<close> and \<open>request_status\<close>
  here, both are strings in the response); the dates ride along in the extension.
\<close>

record status_response =
  error :: "string option"
  currentPhase :: "string option"

record 'f ProjectRequest = "'f submit_data" +
  request_id :: string
  request_status :: string

record ('r, 's) page =
  result :: "'r option"
  status :: "'s option"
  isPolling :: bool
  pending_polls :: nat

definition page_init :: "('r, 's) page" where
  "page_init = \<lparr>result = None, status = None, isPolling = False, pending_polls = 0\<rparr>"

text \<open>\<open>result?.id\<close> as a condition: there is a project and its id is not empty.\<close>

definition has_id :: "('f, 'a) ProjectRequest_scheme option \<Rightarrow> bool" where
  "has_id r = (case r of None \<Rightarrow> False | Some p \<Rightarrow> request_id p \<noteq> [])"

definition not_found_error :: "'m status_response_scheme \<Rightarrow> bool" where
  "not_found_error statusResponse =
     (case error statusResponse of
        None \<Rightarrow> False
      | Some e \<Rightarrow> e \<noteq> [] \<and> str_includes e ''not found'')"

definition polling_complete :: "string option \<Rightarrow> bool" where
  "polling_complete phase_opt =
     (case phase_opt of
        None \<Rightarrow> False
      | Some p \<Rightarrow> p = ''Completed'' \<or> p = ''Failed'' \<or> str_includes p ''Complete'')"

text \<open>
  What \<open>pollStatus\<close> does once \<open>getProjectStatus\<close> has produced its outcome: \<open>Inl\<close> when it
  threw (the \<open>catch\<close> only logs), \<open>Inr\<close> the parsed response. Nothing here looks at
  \<open>isPolling\<close>.
\<close>

definition pollStatus ::
  "('r, 'm status_response_scheme) page \<Rightarrow> 'e + 'm status_response_scheme
   \<Rightarrow> ('r, 'm status_response_scheme) page" where
  "pollStatus st fetched =
     (case fetched of
        Inl err \<Rightarrow> st
      | Inr statusResponse \<Rightarrow>
          if not_found_error statusResponse then st
          else (let st1 = st\<lparr>status := Some statusResponse\<rparr>
                in if polling_complete (currentPhase statusResponse)
                   then st1\<lparr>isPolling := False\<rparr> else st1))"

text \<open>
  What happens to the page: a submission succeeded (\<open>setResult\<close>), the timer after a
  submission fired (\<open>setIsPolling(true)\<close>), a poll came due (the first call of the polling
  effect or a tick of its interval), or the answer to a request in flight arrived. The
  effect starts polls only while \<open>result?.id && isPolling\<close>; stopping it clears the interval
  but cancels no request, so an answer is handled whenever a request is in flight.
\<close>

datatype ('r, 's, 'e) page_event =
  SubmitSucceeded 'r | PollingScheduled | PollDue | Response "'e + 's"

fun page_step ::
  "(('f, 'a) ProjectRequest_scheme, 'm status_response_scheme) page
   \<Rightarrow> (('f, 'a) ProjectRequest_scheme, 'm status_response_scheme, 'e) page_event
   \<Rightarrow> (('f, 'a) ProjectRequest_scheme, 'm status_response_scheme) page" where
  "page_step st (SubmitSucceeded project) = st\<lparr>result := Some project\<rparr>"
| "page_step st PollingScheduled = st\<lparr>isPolling := True\<rparr>"
| "page_step st PollDue =
     (if has_id (result st) \<and> isPolling st then st\<lparr>pending_polls := pending_polls st + 1\<rparr>
      else st)"
| "page_step st (Response fetched) =
     (if pending_polls st > 0
      then (pollStatus st fetched)\<lparr>pending_polls := pending_polls st - 1\<rparr>
      else st)"



definition page_run ::
  "(('f, 'a) ProjectRequest_scheme, 'm status_response_scheme, 'e) page_event list
   \<Rightarrow> (('f, 'a) ProjectRequest_scheme, 'm status_response_scheme) page" where
  "page_run evs = foldl page_step page_init evs"

text \<open>Whether the "Download Project Files" button is part of what the page renders.\<close>

definition download_rendered :: "('r, 'm status_response_scheme) page \<Rightarrow> bool" where
  "download_rendered st =
     (result st \<noteq> None \<and>
      (case status st of
         None \<Rightarrow> False
       | Some s \<Rightarrow>
           (case currentPhase s of
              None \<Rightarrow> False
            | Some p \<Rightarrow> p = ''Completed'' \<or> str_includes p ''Complete'')))"

datatype 'b download_outcome = NoRequest | Saved string 'b | Alert

definition handleDownload ::
  "(('f, 'a) ProjectRequest_scheme, 's) page \<Rightarrow> (string \<Rightarrow> 'e + 'b) \<Rightarrow> 'b download_outcome" where
  "handleDownload st downloadProject =
     (case result st of
        None \<Rightarrow> NoRequest
      | Some project \<Rightarrow>
          if request_id project = [] then NoRequest
          else (case downloadProject (request_id project) of
                  Inl err \<Rightarrow> Alert
                | Inr blob \<Rightarrow> Saved (''project-'' @ request_id project @ ''.zip'') blob))"

section \<open>The pipeline orchestrator and the project registry\<close>

text \<open>
  The server side (orchestrator, registry, bundle assembly) is not among the sources. This
  section models it from the spec; the client's own types are reused where the spec names
  the same thing: an artifact is a \<open>GeneratedFile\<close> (its category is the file's type), the
  states of an agent are the values of \<open>Agent.status\<close>, and the project state extends the
  submitted \<open>description\<close>, \<open>language\<close> and reference files.
\<close>

text \<open>Modelled from the spec: the orchestrator's \<open>phase\<close> enumeration (section 3).\<close>

datatype phase = Pending | RunningStage nat | Completed | Failed

text \<open>
  Modelled from the spec: the orchestrator's \<open>AgentStatus\<close> record (section 3), one per stage.
\<close>

record AgentStatus =
  name :: string
  state :: agent_state
  progressPercent :: nat
  currentTask :: "string option"

text \<open>Modelled from the spec: the orchestrator's log levels (section 3).\<close>

datatype log_level = info | warning | error_level | success

text \<open>
  Modelled from the spec: the orchestrator's \<open>LogEntry\<close> (section 3), without identifier and
  time stamp.
\<close>

record LogEntry =
  agentName :: string
  level :: log_level
  message :: string

text \<open>
  Modelled from the spec: the stage executor's \<open>StageResult\<close> (section 3): \<open>Success\<close> with
  artifacts and summary, or \<open>Failure\<close> with reason and \<open>isRecoverable\<close>.
\<close>

datatype StageResult = Success "GeneratedFile list" string | Failure string bool

text \<open>
  Modelled from the spec: the orchestrator's \<open>ProjectState\<close> (section 3). Time stamps are
  left out; \<open>completedAt_set\<close> records that \<open>completedAt\<close> has been set.
\<close>

record 'f ProjectState = "'f submit_data" +
  projectId :: string
  phase :: phase
  agents :: "AgentStatus list"
  logs :: "LogEntry list"
  artifacts :: "GeneratedFile list"
  overallProgress :: nat
  completedAt_set :: bool

text \<open>Modelled from the spec: the five fixed stages in their order (section 1).\<close>

definition stage_names :: "string list" where
  "stage_names = [''design'', ''frontend'', ''backend'', ''tests'', ''documentation'']"

text \<open>Modelled from the spec: the number of stages of the orchestrator's pipeline, five.\<close>

definition stage_count :: nat where
  "stage_count = length stage_names"

text \<open>Modelled from the spec: the retry policy of section 4.2, two retries.\<close>

definition retry_budget :: nat where
  "retry_budget = 2"

text \<open>Modelled from the spec: \<open>round(a / b)\<close> of section 4.2, halves rounded up.\<close>

definition round_div :: "nat \<Rightarrow> nat \<Rightarrow> nat" where
  "round_div a b = (2 * a + b) div (2 * b)"

text \<open>
  Modelled from the spec: the state a submission creates (sections 3 and 4.2): Pending, one
  idle agent per stage, no logs, no artifacts. The agents carry the names the client knows.
\<close>

definition new_project :: "string \<Rightarrow> 'f submit_data \<Rightarrow> 'f ProjectState" where
  "new_project pid d =
     \<lparr>description = description d, language = language d, files = files d,
      projectId = pid, phase = Pending,
      agents = map (\<lambda>n. \<lparr>name = n, state = idle, progressPercent = 0, currentTask = None\<rparr>)
                 AGENT_ICONS_keys,
      logs = [], artifacts = [], overallProgress = 0, completedAt_set = False\<rparr>"

text \<open>Modelled from the spec: the orchestrator's update of \<open>agents[i]\<close> (section 4.2).\<close>

definition set_agent ::
  "nat \<Rightarrow> (AgentStatus \<Rightarrow> AgentStatus) \<Rightarrow> 'f ProjectState \<Rightarrow> 'f ProjectState" where
  "set_agent i f s = s\<lparr>agents := (agents s)[i := f (agents s ! i)]\<rparr>"

text \<open>
  Modelled from the spec: the orchestrator's append of a log entry in the name of the agent
  of stage \<open>i\<close> (section 4.2).
\<close>

definition add_log :: "nat \<Rightarrow> log_level \<Rightarrow> string \<Rightarrow> 'f ProjectState \<Rightarrow> 'f ProjectState" where
  "add_log i lv msg s =
     s\<lparr>logs := logs s @
        [\<lparr>agentName = (if i < length (agents s) then name (agents s ! i) else []),
          level = lv, message = msg\<rparr>]\<rparr>"

text \<open>
  Modelled from the spec: the orchestrator's transition "on start" (section 4.2). Like each
  of the transitions below it is one atomic commit.
\<close>

definition start :: "'f ProjectState \<Rightarrow> 'f ProjectState" where
  "start s =
     (set_agent 0 (\<lambda>a. a\<lparr>state := working, progressPercent := 0\<rparr>) s)\<lparr>phase := RunningStage 0\<rparr>"

text \<open>Modelled from the spec: the orchestrator's step 1 of a stage (section 4.2).\<close>

definition mark_working :: "nat \<Rightarrow> 'f ProjectState \<Rightarrow> 'f ProjectState" where
  "mark_working i s =
     add_log i info (''Starting '' @ (if i < stage_count then stage_names ! i else []))
       (set_agent i (\<lambda>a. a\<lparr>state := working\<rparr>) s)"

text \<open>Modelled from the spec: the orchestrator's step 3, on \<open>Success\<close> (section 4.2).\<close>

definition on_success ::
  "nat \<Rightarrow> GeneratedFile list \<Rightarrow> string \<Rightarrow> 'f ProjectState \<Rightarrow> 'f ProjectState" where
  "on_success i arts summaryText s =
     (let s1 = s\<lparr>artifacts := artifacts s @ arts\<rparr>;
          s2 = set_agent i (\<lambda>a. a\<lparr>state := completed, progressPercent := 100\<rparr>) s1;
          s3 = add_log i success summaryText s2;
          s4 = s3\<lparr>overallProgress := round_div (100 * (i + 1)) 5\<rparr>
      in if i + 1 < stage_count then s4\<lparr>phase := RunningStage (i + 1)\<rparr>
         else s4\<lparr>phase := Completed, completedAt_set := True\<rparr>)"

text \<open>
  Modelled from the spec: the orchestrator's step 4, a recoverable failure within the retry
  budget (sections 4.2 and 7): the failed attempt surfaces as one error entry.
\<close>

definition on_retry :: "nat \<Rightarrow> string \<Rightarrow> 'f ProjectState \<Rightarrow> 'f ProjectState" where
  "on_retry i reason s = add_log i error_level reason s"

text \<open>Modelled from the spec: the orchestrator's step 5, the unrecoverable failure (section 4.2).\<close>

definition on_failure :: "nat \<Rightarrow> string \<Rightarrow> 'f ProjectState \<Rightarrow> 'f ProjectState" where
  "on_failure i reason s =
     (add_log i error_level reason (set_agent i (\<lambda>a. a\<lparr>state := failed\<rparr>) s))
       \<lparr>phase := Failed, completedAt_set := True\<rparr>"

text \<open>
  Modelled from the spec: the driving loop of section 4.2. The list holds the outcomes of the
  successive calls of the stage executor (the external generation is not modelled); the
  result is the list of the snapshots committed, in order. \<open>i\<close> is the running stage,
  \<open>retries\<close> the retries already spent on it. When the outcomes run out the orchestrator
  is waiting for the executor and nothing more has been committed.
\<close>

fun run_stages ::
  "nat \<Rightarrow> nat \<Rightarrow> 'f ProjectState \<Rightarrow> StageResult list \<Rightarrow> 'f ProjectState list" where
  "run_stages i retries s [] = []"
| "run_stages i retries s (Success arts summaryText # rest) =
     (let s1 = on_success i arts summaryText s
      in if i + 1 < stage_count
         then (let s2 = mark_working (i + 1) s1 in s1 # s2 # run_stages (i + 1) 0 s2 rest)
         else [s1])"
| "run_stages i retries s (Failure reason isRecoverable # rest) =
     (if isRecoverable \<and> retries < retry_budget
      then (let s1 = on_retry i reason s in s1 # run_stages i (retries + 1) s1 rest)
      else [on_failure i reason s])"

text \<open>
  Modelled from the spec: every snapshot of one project, from its submission on (sections
  2 and 4.2).
\<close>

definition snapshots :: "string \<Rightarrow> 'f submit_data \<Rightarrow> StageResult list \<Rightarrow> 'f ProjectState list" where
  "snapshots pid d results =
     (let s0 = new_project pid d;
          s1 = start s0;
          s2 = mark_working 0 s1
      in s0 # s1 # s2 # run_stages 0 0 s2 results)"

text \<open>
  Modelled from the spec: the index of the current stage of a snapshot (section 8,
  \<open>phase_index\<close>): the running stage; no stage is behind a pending project, all are behind a
  completed one; of a failed project it is the stage whose agent failed.
\<close>

definition phase_index :: "'f ProjectState \<Rightarrow> nat" where
  "phase_index s =
     (case phase s of
        Pending \<Rightarrow> 0
      | RunningStage i \<Rightarrow> i
      | Completed \<Rightarrow> length (agents s)
      | Failed \<Rightarrow> length (takeWhile (\<lambda>a. state a \<noteq> failed) (agents s)))"

text \<open>
  Modelled from the spec: the single-in-progress invariant (sections 3 and 8), as a test on
  one snapshot.
\<close>

definition single_in_progress :: "'f ProjectState \<Rightarrow> bool" where
  "single_in_progress s =
     (let st = map state (agents s); k = phase_index s
      in length (filter (\<lambda>a. a = working) st) \<le> 1
         \<and> (phase s = Failed \<or> list_all (\<lambda>a. a = completed) (take k st))
         \<and> list_all (\<lambda>a. a = idle) (drop (Suc k) st)
         \<and> list_all (\<lambda>a. a \<in> {idle, working, completed, failed}) st)"

text \<open>
  Modelled from the spec: the order of the orchestrator's state machine (section 4.2):
  transitions go strictly left to right, with no loops and no skipping. A phase may stay,
  move to the next stage, move from the last stage to Completed, or move from a running
  stage to Failed; the terminal phases stay.
\<close>

fun phase_advance :: "phase \<Rightarrow> phase \<Rightarrow> bool" where
  "phase_advance Pending q = (q = Pending \<or> q = RunningStage 0)"
| "phase_advance (RunningStage i) q =
     (q = RunningStage i
      \<or> (i + 1 < stage_count \<and> q = RunningStage (i + 1))
      \<or> (i + 1 = stage_count \<and> q = Completed)
      \<or> (i < stage_count \<and> q = Failed))"
| "phase_advance Completed q = (q = Completed)"
| "phase_advance Failed q = (q = Failed)"

text \<open>
  Modelled from the spec: the stages a snapshot has started, read off the info entries
  ("Starting <stage>", section 4.2 step 1) of its log.
\<close>

definition started_stages :: "'f ProjectState \<Rightarrow> string list" where
  "started_stages s = map message (filter (\<lambda>l. level l = info) (logs s))"

text \<open>Modelled from the spec: the server's caller-facing errors (section 7).\<close>

datatype caller_error = DuplicateId | NotFound | NotReady

text \<open>
  Modelled from the spec: the server's bundle assembly (section 4.5): the archive lists every
  artifact under its category and path.
\<close>

definition assemble_bundle :: "'f ProjectState \<Rightarrow> (file_type \<times> string \<times> string) list" where
  "assemble_bundle s = map (\<lambda>a. (type a, path a, content a)) (artifacts s)"

text \<open>
  Modelled from the spec: the server's \<open>download\<close> (sections 4.5, 6 and 8); the registry
  maps identifiers to project states.
\<close>

definition download ::
  "(string \<rightharpoonup> 'f ProjectState) \<Rightarrow> string
   \<Rightarrow> caller_error + (file_type \<times> string \<times> string) list" where
  "download registry pid =
     (case registry pid of
        None \<Rightarrow> Inl NotFound
      | Some s \<Rightarrow> if phase s = Completed then Inr (assemble_bundle s) else Inl NotReady)"

text \<open>
  Auxiliary notions for the proofs about the orchestrator: the agents' states of a snapshot,
  the shape of a snapshot while stage \<open>i\<close> runs, the invariant together with the number of
  agents, and a snapshot whose phase is not terminal.
\<close>

definition states :: "'f ProjectState \<Rightarrow> agent_state list" where
  "states s = map state (agents s)"

definition running :: "nat \<Rightarrow> 'f ProjectState \<Rightarrow> bool" where
  "running i s \<longleftrightarrow>
     phase s = RunningStage i \<and> i < 5
     \<and> states s = replicate i completed @ working # replicate (4 - i) idle"

definition good :: "'f ProjectState \<Rightarrow> bool" where
  "good s \<longleftrightarrow> single_in_progress s \<and> length (agents s) = 5"


section \<open>Worked examples\<close>

text \<open>Concrete inputs on which the theorems below are exercised.\<close>

definition demo_server :: "string request \<Rightarrow> string + string ProjectRequest" where
  "demo_server req =
     (if map fst (data req) = [''description'', ''language'', ''files'', ''files'']
      then Inr \<lparr>description = ''todo app'', language = ''Python'', files = None,
                request_id = ''p-1'', request_status = ''pending''\<rparr>
      else Inl ''422'')"

definition demo_data :: "string submit_data" where
  "demo_data = \<lparr>description = ''todo app'', language = ''Python'', files = Some [''a.md'', ''b.md'']\<rparr>"

definition example_results :: "StageResult list" where
  "example_results =
     [Success [\<lparr>path = ''design/architecture.md'', content = ''# design'', type = design\<rparr>] ''designed'',
      Failure ''timeout'' True,
      Failure ''timeout'' True,
      Success [] ''frontend written'',
      Failure ''UnparsableResponse'' False]"

definition example_run :: "string ProjectState list" where
  "example_run = snapshots ''p-2'' demo_data example_results"

definition example_project :: "string ProjectRequest" where
  "example_project =
     \<lparr>description = ''todo app'', language = ''Python'', files = None,
      request_id = ''p-1'', request_status = ''pending''\<rparr>"

definition example_events :: "(string ProjectRequest, status_response, string) page_event list" where
  "example_events =
     [SubmitSucceeded example_project, PollingScheduled,
      PollDue, Response (Inl ''Failed to get status: 500''),
      PollDue, Response (Inr \<lparr>error = Some ''Project not found'', currentPhase = None\<rparr>),
      PollDue, Response (Inr \<lparr>error = None, currentPhase = Some ''Phase 1: System Design''\<rparr>),
      PollDue, Response (Inr \<lparr>error = None, currentPhase = Some ''Completed''\<rparr>),
      PollDue, Response (Inr \<lparr>error = None, currentPhase = Some ''Phase 2: Frontend Development''\<rparr>)]"


definition example_completed :: "string ProjectState list" where
  "example_completed =
     snapshots ''p-1'' demo_data
       [Success [\<lparr>path = ''design/architecture.md'', content = ''# design'', type = design\<rparr>] ''designed'',
        Success [\<lparr>path = ''src/App.tsx'', content = ''export {}'', type = frontend\<rparr>] ''frontend written'',
        Success [\<lparr>path = ''main.py'', content = ''pass'', type = backend\<rparr>] ''backend written'',
        Success [\<lparr>path = ''test_main.py'', content = ''pass'', type = test\<rparr>] ''tests written'',
        Success [\<lparr>path = ''README.md'', content = ''# todo'', type = documentation\<rparr>] ''documented'']"

definition example_registry :: "string \<rightharpoonup> string ProjectState" where
  "example_registry = [''p-1'' \<mapsto> last example_completed, ''p-2'' \<mapsto> last example_run]"

section \<open>Facts about the derived progress\<close>

lemma getPhaseProgress_range:
  "getPhaseProgress s \<in> {0, 20, 40, 60, 80, 90, 100}"
  by (simp add: getPhaseProgress_def Let_def)

lemma stage_labels_eq:
  "stage_labels =
     [''Phase 1: System Design'', ''Phase 2: Frontend Development'',
      ''Phase 3: Backend Development'', ''Phase 4: Test Creation'', ''Phase 5: Documentation'']"
  by (simp add: stage_labels_def timeline_def)

lemma progress_Pending: "getPhaseProgress ''Pending'' = 0"
  by code_simp

lemma progress_stage_labels: "map getPhaseProgress stage_labels = [20, 40, 60, 80, 90]"
  unfolding stage_labels_eq by code_simp

lemma progress_Completed: "getPhaseProgress ''Completed'' = 100"
  by code_simp

lemma progress_Failed: "getPhaseProgress ''Failed'' = 0"
  by code_simp

lemma progress_task_texts:
  "map getPhaseProgress
     [''creating system design'', ''developing frontend'', ''developing backend'',
      ''creating test'', ''creating documentation''] = [20, 40, 60, 80, 90]"
  by code_simp

text \<open>
  C1 (as the code has it). The derived progress is a function of the phase text alone. It is
  0 for Pending, 20, 40, 60, 80 and 90 for the five stage phases in order (by the timeline's
  labels as by the task texts the function also matches), and 100 for Completed; whatever
  the text, the value is one of 0, 20, 40, 60, 80, 90, 100, hence a multiple of 10.
\<close>

theorem getPhaseProgress_phases:
  "getPhaseProgress ''Pending'' = 0
   \<and> map getPhaseProgress stage_labels = [20, 40, 60, 80, 90]
   \<and> map getPhaseProgress
        [''creating system design'', ''developing frontend'', ''developing backend'',
         ''creating test'', ''creating documentation''] = [20, 40, 60, 80, 90]
   \<and> getPhaseProgress ''Completed'' = 100
   \<and> getPhaseProgress s \<in> {0, 20, 40, 60, 80, 90, 100}
   \<and> 10 dvd getPhaseProgress s"
proof -
  have range: "getPhaseProgress s \<in> {0, 20, 40, 60, 80, 90, 100}"
    by (rule getPhaseProgress_range)
  then have "10 dvd getPhaseProgress s"
    by auto
  with range show ?thesis
    using progress_task_texts
    by (simp add: progress_Pending progress_stage_labels progress_Completed)
qed

theorem getPhaseProgress_phases_witness:
  "getPhaseProgress ''Phase 5: Documentation'' = 90
   \<and> getPhaseProgress ''Phase 5: Documentation'' \<in> {0, 20, 40, 60, 80, 90, 100}
   \<and> 10 dvd getPhaseProgress ''Phase 5: Documentation''"
  using getPhaseProgress_phases [of "''Phase 5: Documentation''"]
  by (simp add: stage_labels_eq)

text \<open>
  C1 as the claim words it fails: the fifth stage phase is shown as 90, which is neither 100
  nor a multiple of 20.
\<close>

theorem getPhaseProgress_stage5_counterexample:
  "getPhaseProgress (stage_labels ! 4) \<noteq> 100 \<and> \<not> 20 dvd getPhaseProgress (stage_labels ! 4)"
proof -
  have "getPhaseProgress (stage_labels ! 4) = 90"
    using progress_stage_labels by (simp add: stage_labels_eq)
  then show ?thesis by simp
qed

section \<open>Facts about slicing, FileUpload and the activity pane\<close>

lemma nat_int_diff: "nat (int a - int b) = a - b"
  by simp

lemma js_slice_last: "0 < n \<Longrightarrow> js_slice xs (- int n) None = drop (length xs - n) xs"
  by (simp add: js_slice_def slice_index_def Let_def max_def nat_int_diff)

lemma js_slice_first: "0 \<le> m \<Longrightarrow> js_slice xs 0 (Some m) = take (nat m) xs"
  by (auto simp: js_slice_def slice_index_def Let_def min_def)

lemma recentLogs_eq: "recentLogs ls = rev (drop (length ls - 10) ls)"
  using js_slice_last [where n = 10 and xs = ls] by (simp add: recentLogs_def)

lemma recent_nth:
  assumes "k < min 10 (length ls)"
  shows "recentLogs ls ! k = ls ! (length ls - 1 - k)"
proof -
  let ?d = "length ls - 10"
  have len: "length (drop ?d ls) = min 10 (length ls)" by auto
  have "recentLogs ls ! k = drop ?d ls ! (length (drop ?d ls) - Suc k)"
    using assms len by (simp add: recentLogs_eq rev_nth)
  also have "\<dots> = ls ! (?d + (length (drop ?d ls) - Suc k))"
    by (rule nth_drop) simp
  also have "?d + (length (drop ?d ls) - Suc k) = length ls - 1 - k"
    using assms by auto
  finally show ?thesis .
qed

lemma enumerate_above: "\<forall>p \<in> set (enumerate (Suc n) xs). fst p \<noteq> n"
  by (auto simp: in_set_enumerate_eq)

lemma filter_enumerate:
  "map snd (filter (\<lambda>(i, _). i \<noteq> k + n) (enumerate n xs)) = take k xs @ drop (Suc k) xs"
proof (induction xs arbitrary: n k)
  case Nil
  then show ?case by simp
next
  case (Cons x xs)
  show ?case
  proof (cases k)
    case 0
    have "filter (\<lambda>(i, _). i \<noteq> n) (enumerate (Suc n) xs) = enumerate (Suc n) xs"
      using enumerate_above [of n xs] by (intro filter_True) auto
    then show ?thesis using 0 by simp
  next
    case (Suc j)
    then show ?thesis using Cons.IH [of j "Suc n"] by simp
  qed
qed

lemma removeFile_tracked:
  "tracked (removeFile st i) = take i (rendered st) @ drop (Suc i) (rendered st)"
  using filter_enumerate [of i 0 "rendered st"] by (simp add: removeFile_def Let_def)

lemma upload_run_snoc:
  "upload_run maxFiles (evs @ [e]) = upload_step maxFiles (upload_run maxFiles evs) e"
  by (simp add: upload_run_def)

lemma onDrop_tracked:
  "0 \<le> maxFiles \<Longrightarrow>
   tracked (onDrop maxFiles st acceptedFiles) = take (nat maxFiles) (rendered st @ acceptedFiles)"
  by (simp add: onDrop_def Let_def js_slice_first)

lemma handler_rendered:
  "rendered (onDrop maxFiles st acceptedFiles) = rendered st"
  "rendered (removeFile st i) = rendered st"
  by (simp_all add: onDrop_def removeFile_def Let_def)

lemma handler_reported:
  "reported (onDrop maxFiles st acceptedFiles)
     = reported st @ [tracked (onDrop maxFiles st acceptedFiles)]"
  "reported (removeFile st i) = reported st @ [tracked (removeFile st i)]"
  by (simp_all add: onDrop_def removeFile_def Let_def)

lemma upload_step_reported:
  "reported (upload_step maxFiles st e) =
     (if handler_event e then reported st @ [tracked (upload_step maxFiles st e)] else reported st)"
  by (cases e) (simp_all add: handler_reported render_def)

lemma upload_step_bound:
  assumes "0 \<le> maxFiles"
    and "length (rendered st) \<le> nat maxFiles" and "length (tracked st) \<le> nat maxFiles"
  shows "length (rendered (upload_step maxFiles st e)) \<le> nat maxFiles
    \<and> length (tracked (upload_step maxFiles st e)) \<le> nat maxFiles"
proof (cases e)
  case (Drop acceptedFiles)
  have "length (take (nat maxFiles) (rendered st @ acceptedFiles)) \<le> nat maxFiles"
    by simp
  with Drop show ?thesis
    using assms(1,2) by (simp add: onDrop_tracked handler_rendered del: length_take)
next
  case (Remove i)
  then show ?thesis
    using assms(2) by (simp add: removeFile_tracked handler_rendered)
next
  case Render
  then show ?thesis using assms(3) by (simp add: render_def)
qed

lemma upload_run_bound:
  "0 \<le> maxFiles \<Longrightarrow>
   length (rendered (upload_run maxFiles evs)) \<le> nat maxFiles
   \<and> length (tracked (upload_run maxFiles evs)) \<le> nat maxFiles"
proof (induction evs rule: rev_induct)
  case Nil
  then show ?case by (simp add: upload_run_def upload_init_def)
next
  case (snoc e evs)
  then show ?case by (simp add: upload_run_snoc upload_step_bound)
qed

lemma upload_run_reported:
  "reported (upload_run maxFiles evs) =
     map (\<lambda>n. tracked (upload_run maxFiles (take (Suc n) evs)))
       (filter (\<lambda>n. handler_event (evs ! n)) [0..<length evs])"
proof (induction evs rule: rev_induct)
  case Nil
  then show ?case by (simp add: upload_run_def upload_init_def)
next
  case (snoc e evs)
  have older: "filter (\<lambda>n. handler_event ((evs @ [e]) ! n)) [0..<length evs]
      = filter (\<lambda>n. handler_event (evs ! n)) [0..<length evs]"
    by (rule filter_cong) (simp_all add: nth_append)
  have step: "reported (upload_run maxFiles (evs @ [e])) =
      (if handler_event e
       then reported (upload_run maxFiles evs) @ [tracked (upload_run maxFiles (evs @ [e]))]
       else reported (upload_run maxFiles evs))"
    by (simp add: upload_run_snoc upload_step_reported)
  have "map (\<lambda>n. tracked (upload_run maxFiles (take (Suc n) (evs @ [e]))))
        (filter (\<lambda>n. handler_event (evs ! n)) [0..<length evs])
      = map (\<lambda>n. tracked (upload_run maxFiles (take (Suc n) evs)))
        (filter (\<lambda>n. handler_event (evs ! n)) [0..<length evs])"
    by (rule map_cong) auto
  with snoc older step show ?case
    by simp
qed

lemma upload_last_reported:
  "reported (upload_run maxFiles evs) \<noteq> [] \<Longrightarrow>
   last (reported (upload_run maxFiles evs)) = tracked (upload_run maxFiles evs)"
proof (induction evs rule: rev_induct)
  case Nil
  then show ?case by (simp add: upload_run_def upload_init_def)
next
  case (snoc e evs)
  show ?case
  proof (cases e)
    case Render
    with snoc show ?thesis
      by (simp add: upload_run_snoc render_def)
  next
    case (Drop acceptedFiles)
    then show ?thesis by (simp add: upload_run_snoc handler_reported)
  next
    case (Remove i)
    then show ?thesis by (simp add: upload_run_snoc handler_reported)
  qed
qed

text \<open>
  C8 (as the code has it). With \<open>maxFiles\<close> not negative, after any sequence of drops,
  removals and renders the component holds at most \<open>maxFiles\<close> files (in its state and in
  what it has rendered); \<open>onDrop\<close> yields the first \<open>maxFiles\<close> elements of the list of its
  render followed by the accepted files; \<open>removeFile\<close> never lengthens the list of its
  render; and the lists handed to \<open>onFilesChange\<close> are, call by call, the tracked lists
  after each drop or removal, so the last one reported is the tracked list.
\<close>

theorem upload_never_exceeds_maxFiles:
  assumes "0 \<le> maxFiles"
  shows "length (tracked (upload_run maxFiles evs)) \<le> nat maxFiles
    \<and> length (rendered (upload_run maxFiles evs)) \<le> nat maxFiles
    \<and> tracked (onDrop maxFiles st acceptedFiles) = take (nat maxFiles) (rendered st @ acceptedFiles)
    \<and> length (tracked (removeFile st i)) \<le> length (rendered st)
    \<and> reported (upload_run maxFiles evs) =
        map (\<lambda>n. tracked (upload_run maxFiles (take (Suc n) evs)))
          (filter (\<lambda>n. handler_event (evs ! n)) [0..<length evs])
    \<and> (reported (upload_run maxFiles evs) \<noteq> [] \<longrightarrow>
         last (reported (upload_run maxFiles evs)) = tracked (upload_run maxFiles evs))"
proof -
  have "length (tracked (removeFile st i)) \<le> length (rendered st)"
    by (simp add: removeFile_tracked)
  then show ?thesis
    using assms upload_run_bound [of maxFiles evs] upload_run_reported [of maxFiles evs]
      upload_last_reported [of maxFiles evs]
    by (simp add: onDrop_tracked)
qed

theorem upload_never_exceeds_maxFiles_witness:
  "(0::int) \<le> maxFiles_prop None
   \<and> maxFiles_prop None = 5
   \<and> tracked (upload_run 5 [Drop ''abcd'', Render, Remove 0, Render, Drop ''efgh'']) = ''bcdef''
   \<and> length (tracked (upload_run 5 [Drop ''abcd'', Render, Remove 0, Render, Drop ''efgh'']))
       \<le> nat 5
   \<and> tracked (onDrop 5 \<lparr>rendered = ''bcd'', tracked = ''bcd'', reported = []\<rparr> ''efgh'')
       = take (nat 5) (''bcd'' @ ''efgh'')
   \<and> length (tracked (removeFile \<lparr>rendered = ''bcd'', tracked = ''bcd'', reported = []\<rparr> 0))
       \<le> length ''bcd''
   \<and> reported (upload_run 5 [Drop ''abcd'', Render, Remove 0, Render, Drop ''efgh''])
       = [''abcd'', ''bcd'', ''bcdef'']
   \<and> last (reported (upload_run 5 [Drop ''abcd'', Render, Remove 0, Render, Drop ''efgh'']))
       = tracked (upload_run 5 [Drop ''abcd'', Render, Remove 0, Render, Drop ''efgh''])
   \<and> tracked (upload_run 5 [Drop ''ab'', Drop ''cd'']) = ''cd''
   \<and> reported (upload_run 5 [Drop ''ab'', Drop ''cd'']) = [''ab'', ''cd'']"
proof -
  have stale: "upload_run 5 [Drop ''ab'', Drop ''cd'']
      = \<lparr>rendered = [], tracked = ''cd'', reported = [''ab'', ''cd'']\<rparr>"
    by code_simp
  have run: "upload_run 5 [Drop ''abcd'', Render, Remove 0, Render, Drop ''efgh'']
      = \<lparr>rendered = ''bcd'', tracked = ''bcdef'', reported = [''abcd'', ''bcd'', ''bcdef'']\<rparr>"
    by code_simp
  show ?thesis
    using upload_never_exceeds_maxFiles
        [of 5 "[Drop ''abcd'', Render, Remove 0, Render, Drop ''efgh'']"
          "\<lparr>rendered = ''bcd'', tracked = ''bcd'', reported = []\<rparr>" "''efgh''" 0]
      upload_never_exceeds_maxFiles
        [of 5 "[Drop ''ab'', Drop ''cd'']"
          "\<lparr>rendered = ''bcd'', tracked = ''bcd'', reported = []\<rparr>" "''efgh''" 0]
    by (simp add: run stale maxFiles_prop_def)
qed

text \<open>
  C8 as the claim words it fails for a negative \<open>maxFiles\<close>: \<open>slice(0, -1)\<close> drops the last
  element only, so after one drop of three files the component holds two, more than
  \<open>maxFiles\<close>, and they are not the first \<open>maxFiles\<close> elements.
\<close>

theorem negative_maxFiles_counterexample:
  "tracked (upload_run (- 1) [Drop ''abc'']) = ''ab''
   \<and> \<not> int (length (tracked (upload_run (- 1) [Drop ''abc'']))) \<le> - 1
   \<and> tracked (onDrop (- 1) upload_init ''abc'') \<noteq> take (nat (- 1)) (tracked upload_init @ ''abc'')"
proof -
  have "upload_run (- 1) [Drop ''abc''] = onDrop (- 1) upload_init ''abc''"
    by (simp add: upload_run_def)
  moreover have "tracked (onDrop (- 1) upload_init ''abc'') = ''ab''"
    by (simp add: onDrop_def upload_init_def js_slice_def slice_index_def Let_def)
  ultimately show ?thesis by simp
qed

text \<open>
  C9. \<open>recentLogs\<close> is the reversal of the suffix of the last (at most ten) log entries: it
  has \<open>min 10 (length logs)\<close> entries and its entry \<open>k\<close> is the \<open>k\<close>-th newest log. The pane
  shows these entries, and the placeholder exactly when there are no logs.
\<close>

theorem recentLogs_last_ten:
  "recentLogs ls = rev (drop (length ls - 10) ls)
   \<and> length (recentLogs ls) = min 10 (length ls)
   \<and> (\<forall>k < min 10 (length ls). recentLogs ls ! k = ls ! (length ls - 1 - k))
   \<and> activity ls = (if ls = [] then NoActivityLogsYet else LogCards (recentLogs ls))"
proof -
  have "length (recentLogs ls) = min 10 (length ls)"
    by (auto simp: recentLogs_eq)
  moreover from this have
    "activity ls = (if ls = [] then NoActivityLogsYet else LogCards (recentLogs ls))"
    by (auto simp: activity_def)
  ultimately show ?thesis
    by (simp add: recent_nth) (rule recentLogs_eq)
qed

theorem recentLogs_last_ten_witness:
  "recentLogs [1 ..< 13 :: nat] = [12, 11, 10, 9, 8, 7, 6, 5, 4, 3]
   \<and> recentLogs [1 ..< 13 :: nat] ! 2 = [1 ..< 13] ! (length [1 ..< 13 :: nat] - 1 - 2)
   \<and> activity [1 ..< 13 :: nat] = LogCards [12, 11, 10, 9, 8, 7, 6, 5, 4, 3]
   \<and> activity ([] :: nat list) = NoActivityLogsYet"
proof -
  have "[1 ..< 13 :: nat] = [1, 2, 3, 4, 5, 6, 7, 8, 9, 10, 11, 12]"
    by code_simp
  then show ?thesis
    using recentLogs_last_ten [of "[1 ..< 13 :: nat]"] recentLogs_last_ten [of "[] :: nat list"]
    by simp
qed

section \<open>Facts about submitProject and OutputViewer\<close>

lemma foldl_append_entry:
  "foldl (\<lambda>formData file. formData @ [(k, f file)]) acc fs = acc @ map (\<lambda>file. (k, f file)) fs"
  by (induction fs arbitrary: acc) simp_all

lemma submitProject_formData_eq:
  "submitProject_formData d =
     [(''description'', Text (description d)), (''language'', Text (language d))]
     @ map (\<lambda>file. (''files'', FileEntry file)) (case files d of None \<Rightarrow> [] | Some fs \<Rightarrow> fs)"
  by (simp add: submitProject_formData_def Let_def append_entry_def foldl_append_entry
      split: option.split)

text \<open>
  C7. \<open>submitProject\<close> sends exactly one request: a POST to \<open>/api/projects/submit\<close> under the
  base URL, declared as multipart form data, whose form holds \<open>description\<close>, \<open>language\<close> and
  then every provided file under the key \<open>files\<close>, in order. Its outcome is whatever the
  server answered: the response body (the created project with its id), or the rejection.
\<close>

theorem submitProject_sends_form:
  assumes "submitProject env server d = (sent, outcome)"
  shows "\<exists>req. sent = [req]
    \<and> request_method req = POST
    \<and> baseURL req @ url req = API_BASE_URL env @ ''/api/projects/submit''
    \<and> headers req = [(''Content-Type'', ''multipart/form-data'')]
    \<and> data req =
        [(''description'', Text (description d)), (''language'', Text (language d))]
        @ map (\<lambda>file. (''files'', FileEntry file)) (case files d of None \<Rightarrow> [] | Some fs \<Rightarrow> fs)
    \<and> outcome = server req"
proof -
  let ?req = "api_post env ''/projects/submit'' (submitProject_formData d)
      [(''Content-Type'', ''multipart/form-data'')]"
  have sent: "sent = [?req]"
    using assms by (simp add: submitProject_def Let_def)
  have "outcome = (case server ?req of Inl err \<Rightarrow> Inl err | Inr body \<Rightarrow> Inr body)"
    using assms by (simp add: submitProject_def Let_def)
  then have out: "outcome = server ?req"
    by (simp split: sum.splits)
  have "request_method ?req = POST" "baseURL ?req @ url ?req = API_BASE_URL env @ ''/api/projects/submit''"
    "headers ?req = [(''Content-Type'', ''multipart/form-data'')]"
    "data ?req = submitProject_formData d"
    by (simp_all add: api_post_def)
  with sent out show ?thesis
    by (simp add: submitProject_formData_eq)
qed

lemma demo_submit:
  "submitProject None demo_server demo_data =
     ([\<lparr>request_method = POST, baseURL = ''http://localhost:8000/api'', url = ''/projects/submit'',
        headers = [(''Content-Type'', ''multipart/form-data'')], timeout = 30000,
        data = [(''description'', Text ''todo app''), (''language'', Text ''Python''),
                (''files'', FileEntry ''a.md''), (''files'', FileEntry ''b.md'')]\<rparr>],
      Inr \<lparr>description = ''todo app'', language = ''Python'', files = None,
            request_id = ''p-1'', request_status = ''pending''\<rparr>)"
  by (simp add: submitProject_def demo_server_def demo_data_def api_post_def API_BASE_URL_def
      submitProject_formData_def append_entry_def Let_def)

theorem submitProject_sends_form_witness:
  "submitProject None demo_server demo_data =
     ([\<lparr>request_method = POST, baseURL = ''http://localhost:8000/api'', url = ''/projects/submit'',
        headers = [(''Content-Type'', ''multipart/form-data'')], timeout = 30000,
        data = [(''description'', Text ''todo app''), (''language'', Text ''Python''),
                (''files'', FileEntry ''a.md''), (''files'', FileEntry ''b.md'')]\<rparr>],
      Inr \<lparr>description = ''todo app'', language = ''Python'', files = None,
            request_id = ''p-1'', request_status = ''pending''\<rparr>)
   \<and> (\<exists>req. data req =
          [(''description'', Text (description demo_data)), (''language'', Text (language demo_data))]
          @ map (\<lambda>file. (''files'', FileEntry file))
              (case files demo_data of None \<Rightarrow> [] | Some fs \<Rightarrow> fs)
        \<and> Inr \<lparr>description = ''todo app'', language = ''Python'', files = None,
                 request_id = ''p-1'', request_status = ''pending''\<rparr> = demo_server req)"
  using submitProject_sends_form [OF demo_submit] demo_submit by blast

text \<open>
  C10. \<open>OutputViewer\<close> returns a view for every list of files. For the empty list the
  initial selection is null and the view is the "No files generated yet" placeholder; for a
  list that is not empty the initial selection is its first element \<open>files[0]\<close>, whose
  button is highlighted and whose content the pane shows.
\<close>

theorem OutputViewer_initial_selection:
  "(fs = [] \<longrightarrow> initial_selectedFile fs = None \<and> OutputViewer_first_render fs = NoFilesGeneratedYet)
   \<and> (fs \<noteq> [] \<longrightarrow> initial_selectedFile fs = Some (fs ! 0)
        \<and> initial_selectedFile fs = Some (hd fs)
        \<and> OutputViewer_first_render fs =
            GeneratedFiles (map (\<lambda>file. (file, path (hd fs) = path file)) fs) (Some (hd fs)))"
proof (cases fs)
  case Nil
  then show ?thesis
    by (simp add: initial_selectedFile_def OutputViewer_first_render_def OutputViewer_def)
next
  case (Cons f rest)
  then have first: "initial_selectedFile fs = Some f"
    by (simp add: initial_selectedFile_def)
  have "OutputViewer fs (Some f) =
      GeneratedFiles (map (\<lambda>file. (file, path f = path file)) fs) (Some f)"
    using Cons by (simp add: OutputViewer_def)
  with first Cons show ?thesis
    by (simp add: OutputViewer_first_render_def)
qed

theorem OutputViewer_initial_selection_witness:
  "initial_selectedFile ([] :: GeneratedFile list) = None
   \<and> OutputViewer_first_render ([] :: GeneratedFile list) = NoFilesGeneratedYet
   \<and> [\<lparr>path = ''README.md'', content = ''# todo'', type = documentation\<rparr>,
       \<lparr>path = ''src/app.py'', content = ''print(1)'', type = backend\<rparr>] \<noteq> []
   \<and> initial_selectedFile
        [\<lparr>path = ''README.md'', content = ''# todo'', type = documentation\<rparr>,
         \<lparr>path = ''src/app.py'', content = ''print(1)'', type = backend\<rparr>]
       = Some \<lparr>path = ''README.md'', content = ''# todo'', type = documentation\<rparr>
   \<and> OutputViewer_first_render
        [\<lparr>path = ''README.md'', content = ''# todo'', type = documentation\<rparr>,
         \<lparr>path = ''src/app.py'', content = ''print(1)'', type = backend\<rparr>]
       = GeneratedFiles
           [(\<lparr>path = ''README.md'', content = ''# todo'', type = documentation\<rparr>, True),
            (\<lparr>path = ''src/app.py'', content = ''print(1)'', type = backend\<rparr>, False)]
           (Some \<lparr>path = ''README.md'', content = ''# todo'', type = documentation\<rparr>)"
  using OutputViewer_initial_selection [of "[] :: GeneratedFile list"]
    OutputViewer_initial_selection
      [of "[\<lparr>path = ''README.md'', content = ''# todo'', type = documentation\<rparr>,
            \<lparr>path = ''src/app.py'', content = ''print(1)'', type = backend\<rparr>]"]
  by simp

section \<open>Facts about the orchestrator\<close>

lemma stage_count_5: "stage_count = 5"
  by (simp add: stage_count_def stage_names_def)

lemma states_set_agent:
  "states (set_agent i f s) = (states s)[i := state (f (agents s ! i))]"
  by (simp add: states_def set_agent_def map_update)

lemma states_add_log: "states (add_log i lv msg s) = states s"
  by (simp add: states_def add_log_def)

lemma phase_set_agent: "phase (set_agent i f s) = phase s"
  by (simp add: set_agent_def)

lemma phase_add_log: "phase (add_log i lv msg s) = phase s"
  by (simp add: add_log_def)

lemma update_mid: "(replicate i a @ x # ys)[i := y] = replicate i a @ y # ys"
  using list_update_length [of "replicate i a" x ys y] by simp

lemma states_new_project: "states (new_project pid d) = replicate 5 idle"
  by (simp add: states_def new_project_def AGENT_ICONS_keys_def numeral_eq_Suc)

lemma running_start: "running 0 (mark_working 0 (start (new_project pid d)))"
  by (simp add: running_def mark_working_def start_def states_add_log states_set_agent
      phase_add_log phase_set_agent states_def new_project_def AGENT_ICONS_keys_def
      set_agent_def add_log_def numeral_eq_Suc)

lemma states_on_success:
  assumes "running i s"
  shows "states (on_success i arts summ s) = replicate (Suc i) completed @ replicate (4 - i) idle"
proof -
  have "states (on_success i arts summ s) = (states s)[i := completed]"
    by (simp add: on_success_def Let_def states_def set_agent_def add_log_def map_update)
  also have "\<dots> = replicate i completed @ completed # replicate (4 - i) idle"
    using assms by (simp add: running_def update_mid)
  finally show ?thesis by (simp add: replicate_append_same)
qed

lemma phase_on_success:
  "phase (on_success i arts summ s) = (if i + 1 < 5 then RunningStage (i + 1) else Completed)"
  by (simp add: on_success_def Let_def stage_count_5)

lemma running_mark_next:
  assumes "running i s" and "i + 1 < 5"
  shows "running (i + 1) (mark_working (i + 1) (on_success i arts summ s))"
proof -
  let ?s1 = "on_success i arts summ s"
  have idle: "replicate (4 - i) idle = idle # replicate (4 - (i + 1)) idle"
    using assms(2) by (cases "4 - i") auto
  have "states (mark_working (i + 1) ?s1) = (states ?s1)[Suc i := working]"
    by (simp add: mark_working_def states_add_log states_set_agent)
  also have "\<dots> = replicate (Suc i) completed @ working # replicate (4 - (i + 1)) idle"
    unfolding states_on_success [OF assms(1)] idle by (rule update_mid)
  finally show ?thesis
    using assms(2)
    by (simp add: running_def mark_working_def phase_add_log phase_set_agent phase_on_success)
qed

lemma running_retry: "running i s \<Longrightarrow> running i (on_retry i reason s)"
  by (simp add: running_def on_retry_def states_add_log phase_add_log)

lemma states_on_failure:
  assumes "running i s"
  shows "states (on_failure i reason s) = replicate i completed @ failed # replicate (4 - i) idle"
proof -
  have "states (on_failure i reason s) = (states s)[i := failed]"
    by (simp add: on_failure_def states_def set_agent_def add_log_def map_update)
  then show ?thesis using assms by (simp add: running_def update_mid)
qed

lemma four_values: "a = idle \<or> a = working \<or> a = completed \<or> a = failed"
  by (cases a) simp_all

lemma length_states: "length (agents s) = length (states s)"
  by (simp add: states_def)

lemma good_running:
  assumes "running i s"
  shows "good s"
proof -
  have st: "states s = replicate i completed @ working # replicate (4 - i) idle"
    and ph: "phase s = RunningStage i" and i: "i < 5"
    using assms by (simp_all add: running_def)
  have "length (agents s) = 5"
    using i by (simp add: length_states st)
  moreover have "single_in_progress s"
    unfolding single_in_progress_def Let_def states_def [symmetric] st
    using i by (simp add: phase_index_def ph four_values list_all_iff)
  ultimately show ?thesis by (simp add: good_def)
qed

lemma good_on_success:
  assumes "running i s"
  shows "good (on_success i arts summ s)"
proof -
  let ?t = "on_success i arts summ s"
  have i: "i < 5" using assms by (simp add: running_def)
  have st: "states ?t = replicate (Suc i) completed @ replicate (4 - i) idle"
    by (rule states_on_success [OF assms])
  have len: "length (agents ?t) = 5"
    using i by (simp add: length_states st)
  have idx: "phase_index ?t = Suc i"
    using i len by (auto simp: phase_index_def phase_on_success)
  have "single_in_progress ?t"
    unfolding single_in_progress_def Let_def states_def [symmetric] st idx
    by (simp add: four_values list_all_iff)
  with len show ?thesis by (simp add: good_def)
qed

lemma good_on_failure:
  assumes "running i s"
  shows "good (on_failure i reason s)"
proof -
  let ?t = "on_failure i reason s"
  have i: "i < 5" using assms by (simp add: running_def)
  have st: "states ?t = replicate i completed @ failed # replicate (4 - i) idle"
    by (rule states_on_failure [OF assms])
  have len: "length (agents ?t) = 5"
    using i by (simp add: length_states st)
  have ph: "phase ?t = Failed"
    by (simp add: on_failure_def)
  have "length (takeWhile (\<lambda>a. state a \<noteq> failed) (agents ?t))
      = length (takeWhile (\<lambda>a. a \<noteq> failed) (states ?t))"
    by (simp add: states_def takeWhile_map comp_def)
  also have "\<dots> = i"
    unfolding st by (simp add: takeWhile_append)
  finally have idx: "phase_index ?t = i"
    by (simp add: phase_index_def ph)
  have "single_in_progress ?t"
    unfolding single_in_progress_def Let_def states_def [symmetric] st idx
    by (simp add: four_values list_all_iff ph)
  with len show ?thesis by (simp add: good_def)
qed

lemma run_stages_good:
  "running i s \<Longrightarrow> t \<in> set (run_stages i r s results) \<Longrightarrow> good t"
proof (induction results arbitrary: i r s)
  case Nil
  then show ?case by simp
next
  case (Cons res rest)
  show ?case
  proof (cases res)
    case (Success arts summ)
    show ?thesis
    proof (cases "i + 1 < 5")
      case True
      let ?s1 = "on_success i arts summ s"
      let ?s2 = "mark_working (i + 1) ?s1"
      have r2: "running (i + 1) ?s2"
        by (rule running_mark_next [OF Cons.prems(1) True])
      from Cons.prems(2) Success True
      consider "t = ?s1" | "t = ?s2" | "t \<in> set (run_stages (i + 1) 0 ?s2 rest)"
        by (auto simp: Let_def stage_count_5)
      then show ?thesis
      proof cases
        case 1
        then show ?thesis using good_on_success [OF Cons.prems(1)] by simp
      next
        case 2
        then show ?thesis using good_running [OF r2] by simp
      next
        case 3
        then show ?thesis using Cons.IH [OF r2] by simp
      qed
    next
      case False
      with Cons.prems(2) Success have "t = on_success i arts summ s"
        by (simp add: Let_def stage_count_5)
      then show ?thesis using good_on_success [OF Cons.prems(1)] by simp
    qed
  next
    case (Failure reason isRecoverable)
    show ?thesis
    proof (cases "isRecoverable \<and> r < retry_budget")
      case True
      let ?s1 = "on_retry i reason s"
      have r1: "running i ?s1"
        by (rule running_retry [OF Cons.prems(1)])
      from Cons.prems(2) Failure True
      consider "t = ?s1" | "t \<in> set (run_stages i (r + 1) ?s1 rest)"
        by (auto simp: Let_def)
      then show ?thesis
      proof cases
        case 1
        then show ?thesis using good_running [OF r1] by simp
      next
        case 2
        then show ?thesis using Cons.IH [OF r1] by simp
      qed
    next
      case False
      with Cons.prems(2) Failure have "t = on_failure i reason s"
        by auto
      then show ?thesis using good_on_failure [OF Cons.prems(1)] by simp
    qed
  qed
qed

lemma good_new_project: "good (new_project pid d)"
  by (simp add: good_def single_in_progress_def phase_index_def new_project_def
      AGENT_ICONS_keys_def)

lemma good_start: "good (start (new_project pid d))"
  by (simp add: good_def single_in_progress_def phase_index_def new_project_def
      AGENT_ICONS_keys_def start_def set_agent_def)

lemma snapshots_good:
  assumes "t \<in> set (snapshots pid d results)"
  shows "good t"
proof -
  let ?s2 = "mark_working 0 (start (new_project pid d))"
  have r: "running 0 ?s2"
    by (rule running_start)
  from assms consider "t = new_project pid d" | "t = start (new_project pid d)" | "t = ?s2"
    | "t \<in> set (run_stages 0 0 ?s2 results)"
    by (auto simp: snapshots_def Let_def)
  then show ?thesis
  proof cases
    case 1
    then show ?thesis by (simp add: good_new_project)
  next
    case 2
    then show ?thesis by (simp add: good_start)
  next
    case 3
    then show ?thesis using good_running [OF r] by simp
  next
    case 4
    then show ?thesis using run_stages_good [OF r] by simp
  qed
qed






lemma phase_mark_working: "phase (mark_working i s) = phase s"
  by (simp add: mark_working_def phase_add_log phase_set_agent)

lemma phase_on_retry: "phase (on_retry i reason s) = phase s"
  by (simp add: on_retry_def phase_add_log)

lemma phase_on_failure: "phase (on_failure i reason s) = Failed"
  by (simp add: on_failure_def)

lemma run_stages_advance:
  "i < stage_count \<Longrightarrow> phase s = RunningStage i \<Longrightarrow>
   successively phase_advance (RunningStage i # map phase (run_stages i r s results))"
proof (induction results arbitrary: i r s)
  case Nil
  then show ?case by simp
next
  case (Cons res rest)
  show ?case
  proof (cases res)
    case (Success arts summ)
    show ?thesis
    proof (cases "i + 1 < stage_count")
      case True
      let ?s2 = "mark_working (i + 1) (on_success i arts summ s)"
      have "successively phase_advance
          (RunningStage (i + 1) # map phase (run_stages (i + 1) 0 ?s2 rest))"
        using True by (intro Cons.IH) (simp_all add: phase_mark_working phase_on_success stage_count_5)
      with True Success show ?thesis
        by (simp add: Let_def phase_mark_working phase_on_success stage_count_5)
    next
      case False
      with Cons.prems(1) have "i + 1 = stage_count" by simp
      with False Success show ?thesis
        by (simp add: Let_def phase_on_success stage_count_5)
    qed
  next
    case (Failure reason isRecoverable)
    show ?thesis
    proof (cases "isRecoverable \<and> r < retry_budget")
      case True
      let ?s1 = "on_retry i reason s"
      have "successively phase_advance
          (RunningStage i # map phase (run_stages i (r + 1) ?s1 rest))"
        using Cons.prems by (intro Cons.IH) (simp_all add: phase_on_retry)
      with True Failure Cons.prems(2) show ?thesis
        by (simp add: Let_def phase_on_retry)
    next
      case False
      with Failure Cons.prems(1) show ?thesis
        by (auto simp: phase_on_failure)
    qed
  qed
qed

lemma snapshots_advance:
  "successively phase_advance (map phase (snapshots pid d results))"
proof -
  let ?s2 = "mark_working 0 (start (new_project pid d))"
  have "successively phase_advance (RunningStage 0 # map phase (run_stages 0 0 ?s2 results))"
    by (rule run_stages_advance)
      (simp_all add: stage_count_5 phase_mark_working start_def)
  then show ?thesis
    by (simp add: snapshots_def Let_def phase_mark_working start_def new_project_def)
qed

lemma all_success_phases:
  "map phase (snapshots pid d
      [Success a1 x1, Success a2 x2, Success a3 x3, Success a4 x4, Success a5 x5])
   = [Pending, RunningStage 0, RunningStage 0, RunningStage 1, RunningStage 1, RunningStage 2,
      RunningStage 2, RunningStage 3, RunningStage 3, RunningStage 4, RunningStage 4, Completed]"
  by (simp add: snapshots_def Let_def stage_count_5 phase_mark_working phase_on_success
      start_def new_project_def)

lemma all_success_last:
  "last (snapshots pid d
      [Success a1 x1, Success a2 x2, Success a3 x3, Success a4 x4, Success a5 x5])
   = on_success 4 a5 x5 (mark_working 4 (on_success 3 a4 x4 (mark_working 3
       (on_success 2 a3 x3 (mark_working 2 (on_success 1 a2 x2 (mark_working 1
         (on_success 0 a1 x1 (mark_working 0 (start (new_project pid d)))))))))))"
  by (simp add: snapshots_def Let_def stage_count_5 eval_nat_numeral)

lemma logs_step:
  "logs (set_agent i f s) = logs s"
  "logs (add_log i lv msg s) = logs s @
     [\<lparr>agentName = (if i < length (agents s) then name (agents s ! i) else []),
       level = lv, message = msg\<rparr>]"
  by (simp_all add: set_agent_def add_log_def)

lemma started_mark_working:
  "i < stage_count \<Longrightarrow>
   started_stages (mark_working i s) = started_stages s @ [''Starting '' @ stage_names ! i]"
  by (simp add: started_stages_def mark_working_def logs_step)

lemma started_on_success: "started_stages (on_success i arts summ s) = started_stages s"
  by (simp add: started_stages_def on_success_def Let_def logs_step)

lemma artifacts_mark_working: "artifacts (mark_working i s) = artifacts s"
  by (simp add: mark_working_def add_log_def set_agent_def)

lemma artifacts_on_success: "artifacts (on_success i arts summ s) = artifacts s @ arts"
  by (simp add: on_success_def Let_def add_log_def set_agent_def)

lemma all_success_stages:
  "started_stages (last (snapshots pid d
      [Success a1 x1, Success a2 x2, Success a3 x3, Success a4 x4, Success a5 x5]))
   = [''Starting design'', ''Starting frontend'', ''Starting backend'', ''Starting tests'',
      ''Starting documentation'']"
proof -
  have "started_stages (start (new_project pid d)) = []"
    by (simp add: started_stages_def start_def new_project_def set_agent_def)
  then show ?thesis
    unfolding all_success_last
    by (simp add: started_mark_working started_on_success stage_count_5)
      (simp add: stage_names_def)
qed

lemma all_success_artifacts:
  "artifacts (last (snapshots pid d
      [Success a1 x1, Success a2 x2, Success a3 x3, Success a4 x4, Success a5 x5]))
   = a1 @ a2 @ a3 @ a4 @ a5"
proof -
  have "artifacts (start (new_project pid d)) = []"
    by (simp add: start_def new_project_def set_agent_def)
  then show ?thesis
    unfolding all_success_last
    by (simp add: artifacts_mark_working artifacts_on_success)
qed

section \<open>Facts about the page\<close>

lemma example_run_phases:
  "map (\<lambda>t. (phase t, map state (agents t))) example_run =
    [(Pending, [idle, idle, idle, idle, idle]),
     (RunningStage 0, [working, idle, idle, idle, idle]),
     (RunningStage 0, [working, idle, idle, idle, idle]),
     (RunningStage 1, [completed, idle, idle, idle, idle]),
     (RunningStage 1, [completed, working, idle, idle, idle]),
     (RunningStage 1, [completed, working, idle, idle, idle]),
     (RunningStage 1, [completed, working, idle, idle, idle]),
     (RunningStage 2, [completed, completed, idle, idle, idle]),
     (RunningStage 2, [completed, completed, working, idle, idle]),
     (Failed, [completed, completed, failed, idle, idle])]"
  by code_simp

lemma example_page:
  "page_run example_events =
     \<lparr>result = Some example_project,
      status = Some \<lparr>error = None, currentPhase = Some ''Completed''\<rparr>,
      isPolling = False, pending_polls = 0\<rparr>"
  by code_simp


lemma page_run_snoc: "page_run (evs @ [e]) = page_step (page_run evs) e"
  by (simp add: page_run_def)

lemma pollStatus_result: "result (pollStatus st fetched) = result st"
  by (simp add: pollStatus_def Let_def split: sum.splits)



lemma requests_need_result:
  "(status (page_run evs) \<noteq> None \<or> 0 < pending_polls (page_run evs))
   \<Longrightarrow> result (page_run evs) \<noteq> None"
proof (induction evs rule: rev_induct)
  case Nil
  then show ?case by (simp add: page_run_def page_init_def)
next
  case (snoc e evs)
  show ?case
  proof (cases e)
    case (SubmitSucceeded project)
    then show ?thesis by (simp add: page_run_snoc)
  next
    case PollingScheduled
    with snoc show ?thesis by (simp add: page_run_snoc)
  next
    case PollDue
    with snoc show ?thesis
      by (auto simp: page_run_snoc has_id_def split: if_splits option.splits)
  next
    case (Response fetched)
    show ?thesis
    proof (cases "0 < pending_polls (page_run evs)")
      case True
      with snoc.IH have "result (page_run evs) \<noteq> None" by simp
      with Response True show ?thesis
        by (simp add: page_run_snoc pollStatus_result)
    next
      case False
      with snoc Response show ?thesis by (simp add: page_run_snoc)
    qed
  qed
qed

lemma status_needs_result:
  "status (page_run evs) \<noteq> None \<Longrightarrow> result (page_run evs) \<noteq> None"
  using requests_need_result [of evs] by simp





lemma download_rendered_iff:
  "download_rendered (page_run evs) \<longleftrightarrow>
     (\<exists>r p. status (page_run evs) = Some r \<and> currentPhase r = Some p
        \<and> (p = ''Completed'' \<or> str_includes p ''Complete''))"
proof (cases "status (page_run evs)")
  case None
  then show ?thesis by (simp add: download_rendered_def)
next
  case (Some r)
  then have "result (page_run evs) \<noteq> None"
    using status_needs_result [of evs] by simp
  with Some show ?thesis
    by (cases "currentPhase r") (simp_all add: download_rendered_def)
qed

lemma example_completed_last:
  "phase (last example_completed) = Completed
   \<and> assemble_bundle (last example_completed) =
      [(design, ''design/architecture.md'', ''# design''),
       (frontend, ''src/App.tsx'', ''export {}''),
       (backend, ''main.py'', ''pass''),
       (test, ''test_main.py'', ''pass''),
       (documentation, ''README.md'', ''# todo'')]
   \<and> map overallProgress example_completed = [0, 0, 0, 20, 20, 40, 40, 60, 60, 80, 80, 100]"
  by code_simp

lemma example_run_last: "phase (last example_run) = Failed"
  by code_simp

lemma timeline_flags:
  "map snd (timeline p) = map (\<lambda>threshold. threshold \<le> p) [20, 40, 60, 80, 90]"
  by (simp add: timeline_def)

lemma progress_labels:
  "getPhaseProgress ''Phase 1: System Design'' = 20"
  "getPhaseProgress ''Phase 2: Frontend Development'' = 40"
  "getPhaseProgress ''Phase 3: Backend Development'' = 60"
  "getPhaseProgress ''Phase 4: Test Creation'' = 80"
  "getPhaseProgress ''Phase 5: Documentation'' = 90"
  using progress_stage_labels by (simp_all add: stage_labels_eq)

section \<open>The claims about the pipeline, the page and the timeline\<close>

text \<open>
  C2. In every snapshot of every project (whatever the stage executor returns) at most one
  agent is working, every agent of a stage before the current one is completed unless the
  pipeline has failed, every agent of a later stage is idle, and every agent's state is one
  of idle, working, completed, failed. There are always five agents.
\<close>

theorem single_in_progress_invariant:
  "\<forall>t \<in> set (snapshots pid d results). single_in_progress t \<and> length (agents t) = 5"
proof
  fix t
  assume "t \<in> set (snapshots pid d results)"
  then have "good t"
    by (rule snapshots_good)
  then show "single_in_progress t \<and> length (agents t) = 5"
    by (simp add: good_def)
qed

theorem single_in_progress_invariant_witness:
  "list_all (\<lambda>t. single_in_progress t \<and> length (agents t) = 5) example_run
   \<and> map (\<lambda>t. (phase t, map state (agents t))) example_run =
    [(Pending, [idle, idle, idle, idle, idle]),
     (RunningStage 0, [working, idle, idle, idle, idle]),
     (RunningStage 0, [working, idle, idle, idle, idle]),
     (RunningStage 1, [completed, idle, idle, idle, idle]),
     (RunningStage 1, [completed, working, idle, idle, idle]),
     (RunningStage 1, [completed, working, idle, idle, idle]),
     (RunningStage 1, [completed, working, idle, idle, idle]),
     (RunningStage 2, [completed, completed, idle, idle, idle]),
     (RunningStage 2, [completed, completed, working, idle, idle]),
     (Failed, [completed, completed, failed, idle, idle])]"
  using single_in_progress_invariant [of "''p-2''" demo_data example_results] example_run_phases
  by (simp add: list_all_iff example_run_def)




text \<open>
  C5. \<open>download\<close> answers NotFound for an unknown identifier, NotReady for a project whose
  phase is not Completed (Pending, a running stage or Failed), and the bundle only for a
  completed project; \<open>handleDownload\<close> run against it saves the archive of a completed
  project and otherwise only alerts. In the client, after any sequence of events, the
  download button is rendered if and only if the status last accepted has a
  \<open>currentPhase\<close> that is \<open>Completed\<close> or contains \<open>Complete\<close>.
\<close>

theorem download_only_when_completed:
  "(registry pid = None \<longrightarrow> download registry pid = Inl NotFound)
   \<and> (\<forall>s. registry pid = Some s \<and> phase s \<noteq> Completed \<longrightarrow> download registry pid = Inl NotReady)
   \<and> (\<forall>s. registry pid = Some s \<and> phase s = Completed \<longrightarrow>
          download registry pid = Inr (assemble_bundle s))
   \<and> (\<forall>project. result st = Some project \<and> request_id project = pid \<and> pid \<noteq> [] \<longrightarrow>
          handleDownload st (download registry) =
            (case registry pid of
               None \<Rightarrow> Alert
             | Some s \<Rightarrow> if phase s = Completed
                        then Saved (''project-'' @ pid @ ''.zip'') (assemble_bundle s)
                        else Alert))
   \<and> (download_rendered (page_run evs) \<longleftrightarrow>
        (\<exists>r p. status (page_run evs) = Some r \<and> currentPhase r = Some p
           \<and> (p = ''Completed'' \<or> str_includes p ''Complete'')))"
proof -
  have "download registry pid = Inl NotFound" if "registry pid = None"
    using that by (simp add: download_def)
  moreover have "download registry pid = Inl NotReady"
    if "registry pid = Some s" and "phase s \<noteq> Completed" for s
    using that by (simp add: download_def)
  moreover have "download registry pid = Inr (assemble_bundle s)"
    if "registry pid = Some s" and "phase s = Completed" for s
    using that by (simp add: download_def)
  moreover have "handleDownload st (download registry) =
      (case registry pid of
         None \<Rightarrow> Alert
       | Some s \<Rightarrow> if phase s = Completed
                  then Saved (''project-'' @ pid @ ''.zip'') (assemble_bundle s)
                  else Alert)"
    if "result st = Some project" and "request_id project = pid" and "pid \<noteq> []" for project
    using that by (simp add: handleDownload_def download_def split: option.split)
  ultimately show ?thesis
    using download_rendered_iff [of evs] by blast
qed

theorem download_only_when_completed_witness:
  "example_registry ''p-3'' = None
   \<and> download example_registry ''p-3'' = Inl NotFound
   \<and> example_registry ''p-2'' = Some (last example_run)
   \<and> phase (last example_run) = Failed
   \<and> download example_registry ''p-2'' = Inl NotReady
   \<and> example_registry ''p-1'' = Some (last example_completed)
   \<and> phase (last example_completed) = Completed
   \<and> download example_registry ''p-1'' = Inr (assemble_bundle (last example_completed))
   \<and> result (page_run example_events) = Some example_project
   \<and> request_id example_project = ''p-1''
   \<and> handleDownload (page_run example_events) (download example_registry)
       = Saved ''project-p-1.zip'' (assemble_bundle (last example_completed))
   \<and> download_rendered (page_run example_events)
   \<and> status (page_run example_events) = Some \<lparr>error = None, currentPhase = Some ''Completed''\<rparr>"
proof -
  have reg: "example_registry ''p-3'' = None"
    "example_registry ''p-2'' = Some (last example_run)"
    "example_registry ''p-1'' = Some (last example_completed)"
    by (simp_all add: example_registry_def)
  have project: "request_id example_project = ''p-1''"
    by (simp add: example_project_def)
  show ?thesis
    using download_only_when_completed
        [of example_registry "''p-3''" "page_run example_events" example_events]
      download_only_when_completed
        [of example_registry "''p-2''" "page_run example_events" example_events]
      download_only_when_completed
        [of example_registry "''p-1''" "page_run example_events" example_events]
      reg project example_run_last example_completed_last
    by (simp add: example_page)
qed

text \<open>
  C6. The pipeline consists of exactly five stages in the fixed order design, frontend,
  backend, tests, documentation: along every run the phase starts at Pending and only ever
  stays, moves to the next stage, moves from the fifth stage to Completed or moves from a
  running stage to Failed, and a run of five successes starts the five stages in this
  order, one after the other, and ends Completed. The development timeline always has
  exactly five items, labelled System Design, Frontend Development, Backend Development,
  Test Creation and Documentation in this order (and there are five agent roles). An item
  is drawn as complete exactly when the derived progress has reached the progress of the
  item's own phase: while the phase of item \<open>j\<close> is the current one the items up to \<open>j\<close> are
  marked, none is for Pending, all are for Completed.
\<close>

theorem timeline_five_phases:
  "map fst (timeline p) =
     [''Phase 1: System Design'', ''Phase 2: Frontend Development'',
      ''Phase 3: Backend Development'', ''Phase 4: Test Creation'', ''Phase 5: Documentation'']
   \<and> length (timeline p) = 5
   \<and> length AGENT_ICONS_keys = 5
   \<and> map snd (timeline p) = map (\<lambda>label. getPhaseProgress label \<le> p) (map fst (timeline p))
   \<and> map (\<lambda>current. map snd (timeline (getPhaseProgress current))) stage_labels
       = map (\<lambda>j. map (\<lambda>k. k \<le> j) [0, 1, 2, 3, 4]) [0, 1, 2, 3, 4 :: nat]
   \<and> map snd (timeline (getPhaseProgress ''Pending'')) = replicate 5 False
   \<and> map snd (timeline (getPhaseProgress ''Completed'')) = replicate 5 True
   \<and> stage_count = 5
   \<and> phase (hd (snapshots pid d results)) = Pending
   \<and> successively phase_advance (map phase (snapshots pid d results))
   \<and> map phase (snapshots pid d
        [Success a1 x1, Success a2 x2, Success a3 x3, Success a4 x4, Success a5 x5])
       = [Pending, RunningStage 0, RunningStage 0, RunningStage 1, RunningStage 1,
          RunningStage 2, RunningStage 2, RunningStage 3, RunningStage 3,
          RunningStage 4, RunningStage 4, Completed]
   \<and> started_stages (last (snapshots pid d
        [Success a1 x1, Success a2 x2, Success a3 x3, Success a4 x4, Success a5 x5]))
       = [''Starting design'', ''Starting frontend'', ''Starting backend'', ''Starting tests'',
          ''Starting documentation'']"
proof -
  have labels: "map fst (timeline p) =
     [''Phase 1: System Design'', ''Phase 2: Frontend Development'',
      ''Phase 3: Backend Development'', ''Phase 4: Test Creation'', ''Phase 5: Documentation'']"
    by (simp add: timeline_def)
  have len: "length (timeline p) = 5" "length AGENT_ICONS_keys = 5"
    by (simp_all add: timeline_def AGENT_ICONS_keys_def)
  have flags: "map snd (timeline p) =
      map (\<lambda>label. getPhaseProgress label \<le> p) (map fst (timeline p))"
    unfolding labels by (simp add: timeline_flags progress_labels)
  have reached: "map (\<lambda>current. map snd (timeline (getPhaseProgress current))) stage_labels
       = map (\<lambda>j. map (\<lambda>k. k \<le> j) [0, 1, 2, 3, 4]) [0, 1, 2, 3, 4 :: nat]"
    unfolding stage_labels_eq by (simp add: timeline_flags progress_labels)
  have ends: "map snd (timeline (getPhaseProgress ''Pending'')) = replicate 5 False"
    "map snd (timeline (getPhaseProgress ''Completed'')) = replicate 5 True"
    by (simp_all add: timeline_flags progress_Pending progress_Completed numeral_eq_Suc)
  have first: "phase (hd (snapshots pid d results)) = Pending"
    by (simp add: snapshots_def Let_def new_project_def)
  have client: "map fst (timeline p) =
     [''Phase 1: System Design'', ''Phase 2: Frontend Development'',
      ''Phase 3: Backend Development'', ''Phase 4: Test Creation'', ''Phase 5: Documentation'']
   \<and> length (timeline p) = 5
   \<and> length AGENT_ICONS_keys = 5
   \<and> map snd (timeline p) = map (\<lambda>label. getPhaseProgress label \<le> p) (map fst (timeline p))
   \<and> map (\<lambda>current. map snd (timeline (getPhaseProgress current))) stage_labels
       = map (\<lambda>j. map (\<lambda>k. k \<le> j) [0, 1, 2, 3, 4]) [0, 1, 2, 3, 4 :: nat]
   \<and> map snd (timeline (getPhaseProgress ''Pending'')) = replicate 5 False
   \<and> map snd (timeline (getPhaseProgress ''Completed'')) = replicate 5 True"
    using labels len flags reached ends by simp
  show ?thesis
    using client first stage_count_5 snapshots_advance [of pid d results]
      all_success_phases [of pid d a1 x1 a2 x2 a3 x3 a4 x4 a5 x5]
      all_success_stages [of pid d a1 x1 a2 x2 a3 x3 a4 x4 a5 x5]
    by blast
qed

theorem timeline_five_phases_witness:
  "map snd (timeline (getPhaseProgress ''Phase 3: Backend Development''))
     = [True, True, True, False, False]
   \<and> map snd (timeline 90) = [True, True, True, True, True]
   \<and> map fst (timeline 90) =
     [''Phase 1: System Design'', ''Phase 2: Frontend Development'',
      ''Phase 3: Backend Development'', ''Phase 4: Test Creation'', ''Phase 5: Documentation'']
   \<and> successively phase_advance (map phase example_run)
   \<and> map phase example_completed
       = [Pending, RunningStage 0, RunningStage 0, RunningStage 1, RunningStage 1,
          RunningStage 2, RunningStage 2, RunningStage 3, RunningStage 3,
          RunningStage 4, RunningStage 4, Completed]
   \<and> started_stages (last example_completed)
       = [''Starting design'', ''Starting frontend'', ''Starting backend'', ''Starting tests'',
          ''Starting documentation'']"
  using timeline_five_phases [of 60 "''p-2''" demo_data example_results]
    timeline_five_phases [of 90 "''p-1''" demo_data "[]"
      "[\<lparr>path = ''design/architecture.md'', content = ''# design'', type = design\<rparr>]" "''designed''"
      "[\<lparr>path = ''src/App.tsx'', content = ''export {}'', type = frontend\<rparr>]" "''frontend written''"
      "[\<lparr>path = ''main.py'', content = ''pass'', type = backend\<rparr>]" "''backend written''"
      "[\<lparr>path = ''test_main.py'', content = ''pass'', type = test\<rparr>]" "''tests written''"
      "[\<lparr>path = ''README.md'', content = ''# todo'', type = documentation\<rparr>]" "''documented''"]
  by (simp add: progress_labels timeline_def example_run_def example_completed_def)

text \<open>
  C3 (what the code does). Along a run that fails while the third stage is running, the
  derived progress is 0, 20, 40, 60 and then 0 again for the phase Failed: the sequence is
  not non-decreasing. Along a run that completes it is.
\<close>

theorem progress_drops_on_Failed:
  "map getPhaseProgress
      [''Pending'', ''Phase 1: System Design'', ''Phase 2: Frontend Development'',
       ''Phase 3: Backend Development'', ''Failed''] = [0, 20, 40, 60, 0]
   \<and> \<not> sorted (map getPhaseProgress
      [''Pending'', ''Phase 1: System Design'', ''Phase 2: Frontend Development'',
       ''Phase 3: Backend Development'', ''Failed''])
   \<and> sorted (map getPhaseProgress (''Pending'' # stage_labels @ [''Completed'']))"
proof -
  have run: "map getPhaseProgress
      [''Pending'', ''Phase 1: System Design'', ''Phase 2: Frontend Development'',
       ''Phase 3: Backend Development'', ''Failed''] = [0, 20, 40, 60, 0]"
    by (simp add: progress_labels progress_Pending progress_Failed)
  have "map getPhaseProgress (''Pending'' # stage_labels @ [''Completed''])
      = [0, 20, 40, 60, 80, 90, 100]"
    by (simp add: progress_stage_labels progress_Pending progress_Completed)
  then have "sorted (map getPhaseProgress (''Pending'' # stage_labels @ [''Completed'']))"
    by simp
  moreover have "\<not> sorted [0, 20, 40, 60, 0 :: nat]"
    by simp
  ultimately show ?thesis
    unfolding run by simp
qed

end
